theory Spec2Isabelle
  imports Complex_Main "HOL-Library.AList"
begin

section \<open>Python exceptions\<close>

datatype py_error =
    OSError
  | JSONDecodeError
  | KeyError
  | TypeError
  | AttributeError
  | ValueError
  | OverflowError
  | RuntimeError

section \<open>The arithmetic of \<open>int(math.sqrt(n))\<close>\<close>

text \<open>
  \<open>math.sqrt\<close> works on IEEE 754 binary64 numbers.  Its argument, a Python integer,
  is first converted to the nearest double (ties to even, \<open>OverflowError\<close> when the
  rounded value does not fit), the square root is rounded to the nearest double again,
  and \<open>int\<close> truncates the result.  Only non-negative integers occur, so a double is
  represented exactly: the converted argument by its integer value, the root by a
  significand \<open>m\<close> and an exponent \<open>e\<close> standing for \<open>m * 2 ^ e\<close>.
\<close>

function bit_length :: "int \<Rightarrow> nat" where
  "bit_length n = (if n \<le> 0 then 0 else Suc (bit_length (n div 2)))"
  by pat_completeness auto
termination
  by (relation "measure nat") auto

declare bit_length.simps [simp del]

definition round_half_even :: "int \<Rightarrow> nat \<Rightarrow> int" where
  "round_half_even n s =
     (let q = n div 2 ^ s; r = n mod 2 ^ s
      in if 2 * r > 2 ^ s \<or> (2 * r = 2 ^ s \<and> odd q) then q + 1 else q)"

definition nearest_double :: "int \<Rightarrow> int" where
  \<comment> \<open>the double nearest to a non-negative integer: 53 significant bits, ties to even\<close>
  "nearest_double n =
     (let L = bit_length n
      in if L \<le> 53 then n else round_half_even n (L - 53) * 2 ^ (L - 53))"

definition int_to_double :: "int \<Rightarrow> py_error + int" where
  "int_to_double n =
     (let r = nearest_double n
      in if r \<ge> 2 ^ 1024 then Inl OverflowError else Inr r)"

function isqrt :: "int \<Rightarrow> int" where
  "isqrt n =
     (if n < 2 then n
      else let r = 2 * isqrt (n div 4)
           in if (r + 1) * (r + 1) \<le> n then r + 1 else r)"
  by pat_completeness auto
termination
  by (relation "measure nat") auto

declare isqrt.simps [simp del]

definition sqrt_exponent :: "int \<Rightarrow> int" where
  \<comment> \<open>the exponent \<open>e\<close> with \<open>2 ^ 52 \<le> sqrt x / 2 ^ e < 2 ^ 53\<close>\<close>
  "sqrt_exponent x = (int (bit_length x) - 105) div 2"

definition sqrt_significand :: "int \<Rightarrow> int \<Rightarrow> int" where
  \<comment> \<open>\<open>sqrt x / 2 ^ e\<close> rounded to the nearest integer, ties to even: the root of
      \<open>x / 4 ^ e\<close> lies above \<open>m0 + 1/2\<close> when \<open>4 * x / 4 ^ e > (2 * m0 + 1)\<^sup>2\<close>\<close>
  "sqrt_significand x e =
     (let num = x * 4 ^ nat (- e);
          den = 4 ^ nat e;
          m0 = isqrt (num div den);
          lhs = 4 * num;
          rhs = (2 * m0 + 1) * (2 * m0 + 1) * den
      in if lhs > rhs \<or> (lhs = rhs \<and> odd m0) then m0 + 1 else m0)"

definition double_sqrt :: "int \<Rightarrow> int \<times> int" where
  "double_sqrt x =
     (if x \<le> 0 then (0, 0)
      else let e = sqrt_exponent x in (sqrt_significand x e, e))"

definition double_to_int :: "int \<times> int \<Rightarrow> int" where
  "double_to_int y =
     (case y of (m, e) \<Rightarrow> if e \<ge> 0 then m * 2 ^ nat e else m div 2 ^ nat (- e))"

definition int_of_math_sqrt :: "int \<Rightarrow> py_error + int" where
  \<comment> \<open>\<open>int(math.sqrt(n))\<close> for a positive Python integer \<open>n\<close>\<close>
  "int_of_math_sqrt n =
     (case int_to_double n of
        Inl err \<Rightarrow> Inl err
      | Inr x \<Rightarrow> Inr (double_to_int (double_sqrt x)))"

subsection \<open>The three level functions\<close>

definition calculate_level :: "int \<Rightarrow> py_error + int" where
  \<comment> \<open>hooks/skill-usage-tracker.py\<close>
  "calculate_level uses =
     (if uses \<le> 0 then Inr 0
      else case int_of_math_sqrt (uses * 10) of
             Inl err \<Rightarrow> Inl err
           | Inr r \<Rightarrow> Inr (max 1 r))"

definition calc_level :: "int \<Rightarrow> py_error + int" where
  \<comment> \<open>skills/skillbook/skillbook.py\<close>
  "calc_level uses =
     (if uses > 0
      then case int_of_math_sqrt (uses * 10) of
             Inl err \<Rightarrow> Inl err
           | Inr r \<Rightarrow> Inr (max 1 r)
      else Inr 0)"

definition calc_level_dashboard :: "int \<Rightarrow> py_error + int" where
  \<comment> \<open>skills/skillbook/skillbook_dashboard.py\<close>
  "calc_level_dashboard uses =
     (if uses > 0
      then case int_of_math_sqrt (uses * 10) of
             Inl err \<Rightarrow> Inl err
           | Inr r \<Rightarrow> Inr (max 1 r)
      else Inr 0)"

section \<open>JSON values and the Python operations on them\<close>

text \<open>
  What \<open>json.load\<close> returns: \<open>None\<close>, a bool, an int, a str, a list or a dict.  A dict
  keeps its insertion order, so it is an association list; \<open>json.load\<close> never yields a
  repeated key.  Numbers with a fraction or an exponent (Python floats) are left out.
\<close>

datatype json =
    JNull
  | JBool bool
  | JInt int
  | JStr string
  | JArr "json list"
  | JObj "(string \<times> json) list"

definition try_bind :: "py_error + 'a \<Rightarrow> ('a \<Rightarrow> py_error + 'b) \<Rightarrow> py_error + 'b" where
  "try_bind m f = (case m of Inl err \<Rightarrow> Inl err | Inr x \<Rightarrow> f x)"

fun py_get :: "json \<Rightarrow> string \<Rightarrow> json \<Rightarrow> py_error + json" where
  \<comment> \<open>\<open>d.get(key, default)\<close>: only a dict has the method\<close>
  "py_get (JObj kvs) key dflt = Inr (case map_of kvs key of None \<Rightarrow> dflt | Some v \<Rightarrow> v)"
| "py_get _ key dflt = Inl AttributeError"

fun py_getitem :: "json \<Rightarrow> string \<Rightarrow> py_error + json" where
  \<comment> \<open>\<open>d[key]\<close> with a string key\<close>
  "py_getitem (JObj kvs) key = (case map_of kvs key of None \<Rightarrow> Inl KeyError | Some v \<Rightarrow> Inr v)"
| "py_getitem _ key = Inl TypeError"

fun py_setitem :: "json \<Rightarrow> string \<Rightarrow> json \<Rightarrow> py_error + json" where
  \<comment> \<open>\<open>d[key] = v\<close> with a string key, returning the updated container\<close>
  "py_setitem (JObj kvs) key v = Inr (JObj (AList.update key v kvs))"
| "py_setitem _ key v = Inl TypeError"

fun py_num :: "json \<Rightarrow> py_error + int" where
  \<comment> \<open>the operand of \<open><=\<close>, \<open>>\<close>, \<open>+\<close> and \<open>*\<close> with an int: bool is a subclass of int\<close>
  "py_num (JInt i) = Inr i"
| "py_num (JBool b) = Inr (if b then 1 else 0)"
| "py_num _ = Inl TypeError"

fun truthy :: "json \<Rightarrow> bool" where
  "truthy JNull = False"
| "truthy (JBool b) = b"
| "truthy (JInt i) = (i \<noteq> 0)"
| "truthy (JStr s) = (s \<noteq> [])"
| "truthy (JArr xs) = (xs \<noteq> [])"
| "truthy (JObj kvs) = (kvs \<noteq> [])"

definition new_skill :: json where
  "new_skill = JObj [(''uses'', JInt 0), (''lastUsed'', JNull), (''pinned'', JBool False)]"

fun ensure_skill :: "json \<Rightarrow> string \<Rightarrow> py_error + json" where
  \<comment> \<open>\<open>if name not in skills: skills[name] = {...}\<close>.  A list or a str answers \<open>in\<close>,
      and then fails in the assignment or in the subscription \<open>skills[name]\<close> that
      follows; the other values are not iterable.\<close>
  "ensure_skill (JObj kvs) name =
     (if map_of kvs name = None then Inr (JObj (AList.update name new_skill kvs))
      else Inr (JObj kvs))"
| "ensure_skill _ name = Inl TypeError"

section \<open>The Stats Store\<close>

subsection \<open>Recording one use in the hook\<close>

definition default_stats :: json where
  "default_stats = JObj [(''version'', JInt 1), (''totalUses'', JInt 0), (''skills'', JObj [])]"

definition record_use :: "string \<Rightarrow> string \<Rightarrow> json \<Rightarrow> py_error + (json \<times> int \<times> int)" where
  \<comment> \<open>\<open>update_stats\<close> between \<open>load_stats\<close> and \<open>write_stats_atomic\<close>\<close>
  "record_use name today stats =
     try_bind (py_get stats ''skills'' (JObj [])) (\<lambda>skills0.
     try_bind (ensure_skill skills0 name) (\<lambda>skills.
     try_bind (py_getitem skills name) (\<lambda>entry.
     try_bind (py_getitem entry ''uses'') (\<lambda>uses.
     try_bind (py_num uses) (\<lambda>u.
     try_bind (calculate_level u) (\<lambda>old_level.
     try_bind (py_setitem entry ''uses'' (JInt (u + 1))) (\<lambda>entry1.
     try_bind (py_setitem entry1 ''lastUsed'' (JStr today)) (\<lambda>updated_skill.
     try_bind (py_setitem skills name updated_skill) (\<lambda>updated_skills.
     try_bind (py_setitem stats ''skills'' updated_skills) (\<lambda>stats1.
     try_bind (py_get stats ''totalUses'' (JInt 0)) (\<lambda>total.
     try_bind (py_num total) (\<lambda>t.
     try_bind (py_setitem stats1 ''totalUses'' (JInt (t + 1))) (\<lambda>stats2.
     try_bind (py_setitem stats2 ''lastUpdated'' (JStr today)) (\<lambda>updated_stats.
     try_bind (calculate_level (u + 1)) (\<lambda>new_level.
     Inr (updated_stats, old_level, new_level))))))))))))))))"

subsection \<open>The terminal CLI\<close>

definition cli_default_stats :: "string \<Rightarrow> json" where
  "cli_default_stats today =
     JObj [(''version'', JInt 1), (''lastUpdated'', JStr today),
           (''totalUses'', JInt 0), (''skills'', JObj [])]"

definition set_last_updated :: "string \<Rightarrow> json \<Rightarrow> py_error + json" where
  \<comment> \<open>the first statement of \<open>save_stats\<close>\<close>
  "set_last_updated today stats = py_setitem stats ''lastUpdated'' (JStr today)"

definition pin_skill_doc :: "string \<Rightarrow> json \<Rightarrow> py_error + json" where
  \<comment> \<open>\<open>pin_skill\<close> up to the call of \<open>save_stats\<close>\<close>
  "pin_skill_doc skill_name stats =
     try_bind (py_getitem stats ''skills'') (\<lambda>skills0.
     try_bind (ensure_skill skills0 skill_name) (\<lambda>skills.
     try_bind (py_getitem skills skill_name) (\<lambda>entry.
     try_bind (py_get entry ''pinned'' (JBool False)) (\<lambda>pinned.
     try_bind (py_setitem entry ''pinned'' (JBool (\<not> truthy pinned))) (\<lambda>entry1.
     try_bind (py_setitem skills skill_name entry1) (\<lambda>skills1.
     py_setitem stats ''skills'' skills1))))))"

definition increment_usage_doc :: "string \<Rightarrow> string \<Rightarrow> json \<Rightarrow> py_error + (json \<times> int \<times> int)" where
  \<comment> \<open>\<open>increment_usage\<close> up to the call of \<open>save_stats\<close>\<close>
  "increment_usage_doc skill_name today stats =
     try_bind (py_getitem stats ''skills'') (\<lambda>skills0.
     try_bind (ensure_skill skills0 skill_name) (\<lambda>skills.
     try_bind (py_getitem skills skill_name) (\<lambda>entry.
     try_bind (py_getitem entry ''uses'') (\<lambda>uses.
     try_bind (py_num uses) (\<lambda>u.
     try_bind (calc_level u) (\<lambda>old_level.
     try_bind (py_setitem entry ''uses'' (JInt (u + 1))) (\<lambda>entry1.
     try_bind (py_setitem entry1 ''lastUsed'' (JStr today)) (\<lambda>entry2.
     try_bind (py_setitem skills skill_name entry2) (\<lambda>skills1.
     try_bind (py_setitem stats ''skills'' skills1) (\<lambda>stats1.
     try_bind (py_get stats1 ''totalUses'' (JInt 0)) (\<lambda>total.
     try_bind (py_num total) (\<lambda>t.
     try_bind (py_setitem stats1 ''totalUses'' (JInt (t + 1))) (\<lambda>stats2.
     try_bind (calc_level (u + 1)) (\<lambda>new_level.
     Inr (stats2, old_level, new_level)))))))))))))))"

subsection \<open>Files\<close>

text \<open>
  A path is the list of its components below the root.  A file is known by what
  opening and parsing it gives: a JSON value, text that is not JSON (an empty or a
  partly written file included), or an \<open>OSError\<close> when it is opened for reading.
  Directories and symbolic links are not represented.
\<close>

type_synonym path = "string list"

datatype content = Json json | Malformed | Unreadable

type_synonym fs = "path \<Rightarrow> content option"

record io_faults =
  mkdir_fails :: bool
  mkstemp_fails :: bool
  open_fails :: bool
  write_fails :: bool
  replace_fails :: bool
  unlink_fails :: bool

definition no_faults :: io_faults where
  "no_faults = \<lparr>mkdir_fails = False, mkstemp_fails = False, open_fails = False,
                 write_fails = False, replace_fails = False, unlink_fails = False\<rparr>"

definition load_stats :: "fs \<Rightarrow> path \<Rightarrow> py_error + json" where
  \<comment> \<open>hook: \<open>is_file\<close>, then \<open>open\<close> and \<open>json.load\<close> under \<open>except (OSError, JSONDecodeError)\<close>\<close>
  "load_stats fs stats_path =
     (case fs stats_path of
        None \<Rightarrow> Inr default_stats
      | Some Unreadable \<Rightarrow> Inr default_stats
      | Some Malformed \<Rightarrow> Inr default_stats
      | Some (Json j) \<Rightarrow> Inr j)"

definition cli_load_stats :: "string \<Rightarrow> fs \<Rightarrow> path \<Rightarrow> py_error + json" where
  \<comment> \<open>skillbook.py: \<open>exists\<close>, then \<open>open\<close> and \<open>json.load\<close> with no handler\<close>
  "cli_load_stats today fs stats_file =
     (case fs stats_file of
        None \<Rightarrow> Inr (cli_default_stats today)
      | Some Unreadable \<Rightarrow> Inl OSError
      | Some Malformed \<Rightarrow> Inl JSONDecodeError
      | Some (Json j) \<Rightarrow> Inr j)"

fun mkstemp :: "fs \<Rightarrow> path \<Rightarrow> string list \<Rightarrow> path option" where
  \<comment> \<open>\<open>tempfile.mkstemp\<close> tries candidate names until one does not exist\<close>
  "mkstemp fs dir [] = None"
| "mkstemp fs dir (n # ns) =
     (let p = dir @ [''.skillbook-stats-'' @ n @ ''.tmp'']
      in if fs p = None then Some p else mkstemp fs dir ns)"

definition unlink_quietly :: "io_faults \<Rightarrow> fs \<Rightarrow> path \<Rightarrow> fs" where
  \<comment> \<open>\<open>try: os.unlink(tmp_path) except OSError: pass\<close>\<close>
  "unlink_quietly io fs p = (if unlink_fails io then fs else fs(p := None))"

definition os_replace :: "fs \<Rightarrow> path \<Rightarrow> path \<Rightarrow> fs" where
  "os_replace fs src dst = (if src = dst then fs else (fs(dst := fs src))(src := None))"

definition write_stats_atomic ::
  "io_faults \<Rightarrow> string list \<Rightarrow> fs \<Rightarrow> path \<Rightarrow> json \<Rightarrow> fs \<times> py_error option" where
  "write_stats_atomic io names fs stats_path stats =
     (if mkdir_fails io then (fs, Some OSError)
      else if mkstemp_fails io then (fs, Some OSError)
      else case mkstemp fs (butlast stats_path) names of
             None \<Rightarrow> (fs, Some OSError)
           | Some tmp_path \<Rightarrow>
               if write_fails io
               then (unlink_quietly io (fs(tmp_path \<mapsto> Malformed)) tmp_path, Some OSError)
               else if replace_fails io
               then (unlink_quietly io (fs(tmp_path \<mapsto> Json stats)) tmp_path, Some OSError)
               else (os_replace (fs(tmp_path \<mapsto> Json stats)) tmp_path stats_path, None))"

definition save_stats ::
  "io_faults \<Rightarrow> string \<Rightarrow> fs \<Rightarrow> path \<Rightarrow> json \<Rightarrow> fs \<times> py_error option" where
  \<comment> \<open>skillbook.py: \<open>open(STATS_FILE, "w")\<close> empties the file before \<open>json.dump\<close> writes\<close>
  "save_stats io today fs stats_file stats =
     (case set_last_updated today stats of
        Inl err \<Rightarrow> (fs, Some err)
      | Inr stats1 \<Rightarrow>
          if mkdir_fails io then (fs, Some OSError)
          else if open_fails io then (fs, Some OSError)
          else if write_fails io then (fs(stats_file \<mapsto> Malformed), Some OSError)
          else (fs(stats_file \<mapsto> Json stats1), None))"

definition update_stats ::
  "io_faults \<Rightarrow> string list \<Rightarrow> string \<Rightarrow> fs \<Rightarrow> string \<Rightarrow> path
     \<Rightarrow> fs \<times> (py_error + int \<times> int)" where
  "update_stats io names today fs name stats_path =
     (case load_stats fs stats_path of
        Inl err \<Rightarrow> (fs, Inl err)
      | Inr stats \<Rightarrow>
          (case record_use name today stats of
             Inl err \<Rightarrow> (fs, Inl err)
           | Inr (updated_stats, old_level, new_level) \<Rightarrow>
               (case write_stats_atomic io names fs stats_path updated_stats of
                  (fs', Some err) \<Rightarrow> (fs', Inl err)
                | (fs', None) \<Rightarrow> (fs', Inr (old_level, new_level)))))"

definition pin_skill ::
  "io_faults \<Rightarrow> string \<Rightarrow> fs \<Rightarrow> path \<Rightarrow> string \<Rightarrow> json \<Rightarrow> fs \<times> py_error option" where
  "pin_skill io today fs stats_file skill_name stats =
     (case pin_skill_doc skill_name stats of
        Inl err \<Rightarrow> (fs, Some err)
      | Inr stats1 \<Rightarrow> save_stats io today fs stats_file stats1)"

definition increment_usage ::
  "io_faults \<Rightarrow> string \<Rightarrow> fs \<Rightarrow> path \<Rightarrow> string \<Rightarrow> json \<Rightarrow> fs \<times> py_error option" where
  "increment_usage io today fs stats_file skill_name stats =
     (case increment_usage_doc skill_name today stats of
        Inl err \<Rightarrow> (fs, Some err)
      | Inr (stats1, old_level, new_level) \<Rightarrow> save_stats io today fs stats_file stats1)"

subsection \<open>Paths from configuration\<close>

fun split_slash :: "string \<Rightarrow> string list" where
  "split_slash [] = [[]]"
| "split_slash (c # cs) =
     (if c = CHR ''/'' then [] # split_slash cs
      else case split_slash cs of [] \<Rightarrow> [[c]] | w # ws \<Rightarrow> (c # w) # ws)"

fun resolve_dots :: "path \<Rightarrow> string list \<Rightarrow> path" where
  "resolve_dots acc [] = acc"
| "resolve_dots acc (c # cs) =
     (if c = [] \<or> c = ''.'' then resolve_dots acc cs
      else if c = ''..'' then resolve_dots (butlast acc) cs
      else resolve_dots (acc @ [c]) cs)"

definition absolute :: "path \<Rightarrow> string \<Rightarrow> path" where
  \<comment> \<open>the file a path string names, seen from the working directory \<open>cw\<close>\<close>
  "absolute cw s =
     (if s \<noteq> [] \<and> hd s = CHR ''/'' then resolve_dots [] (split_slash s)
      else resolve_dots cw (split_slash s))"

definition expanduser_resolve :: "path \<Rightarrow> path \<Rightarrow> string \<Rightarrow> path" where
  \<comment> \<open>\<open>Path(os.path.expanduser(raw)).resolve()\<close>; \<open>~name\<close> of an unknown user stays as it is\<close>
  "expanduser_resolve hm cw raw =
     (case split_slash raw of
        [] \<Rightarrow> cw
      | c # cs \<Rightarrow> if c = ''~'' then resolve_dots hm cs else absolute cw raw)"

record env =
  home :: path
  cwd :: path
  today :: string
  files :: fs
  tmp_names :: "string list"
  faults :: io_faults
  stdin :: content

definition get_stats_path :: "env \<Rightarrow> py_error + path" where
  "get_stats_path e =
     (let config_path = home e @ [''.claude'', ''skillbook.config.json''];
          default_path = home e @ [''.claude'', ''skillbook-stats.json'']
      in case files e config_path of
           None \<Rightarrow> Inr default_path
         | Some Unreadable \<Rightarrow> Inr default_path
         | Some Malformed \<Rightarrow> Inr default_path
         | Some (Json cfg) \<Rightarrow>
             (case py_get cfg ''statsFile'' (JStr '''') of
                Inl err \<Rightarrow> Inl err
              | Inr raw \<Rightarrow>
                  if truthy raw
                  then (case raw of
                          JStr s \<Rightarrow> Inr (expanduser_resolve (home e) (cwd e) s)
                        | _ \<Rightarrow> Inr default_path)
                  else Inr default_path))"

definition validate_stats_path :: "path \<Rightarrow> path \<Rightarrow> string \<Rightarrow> py_error + path" where
  \<comment> \<open>installer.py, \<open>_validate_stats_path\<close>; pathlib's \<open>expanduser\<close> raises
      \<open>RuntimeError\<close> for \<open>~name\<close> of an unknown user\<close>
  "validate_stats_path hm cw path_str =
     (case split_slash path_str of
        [] \<Rightarrow> Inl ValueError
      | c # cs \<Rightarrow>
          if c \<noteq> ''~'' \<and> c \<noteq> [] \<and> hd c = CHR ''~'' then Inl RuntimeError
          else let p = expanduser_resolve hm cw path_str
               in if take (length hm) p = hm then Inr p else Inl ValueError)"

subsection \<open>The command-invocation hook\<close>

definition ALIASES :: "(string \<times> string) list" where
  "ALIASES = [(''wrap'', ''session-wrap:wrap'')]"

definition read_stdin_json :: "content \<Rightarrow> json" where
  \<comment> \<open>\<open>JNull\<close> is Python's \<open>None\<close>\<close>
  "read_stdin_json inp = (case inp of Json j \<Rightarrow> j | Malformed \<Rightarrow> JNull | Unreadable \<Rightarrow> JNull)"

definition is_command_char :: "char \<Rightarrow> bool" where
  "is_command_char c =
     (c \<in> set ''abcdefghijklmnopqrstuvwxyzABCDEFGHIJKLMNOPQRSTUVWXYZ0123456789_:-'')"

fun extract_command :: "json \<Rightarrow> py_error + string option" where
  "extract_command (JStr s) =
     (case s of
        [] \<Rightarrow> Inr None
      | c # rest \<Rightarrow>
          if c = CHR ''/'' \<and> takeWhile is_command_char rest \<noteq> []
          then Inr (Some (takeWhile is_command_char rest))
          else Inr None)"
| "extract_command v = (if truthy v then Inl TypeError else Inr None)"

definition resolve_alias :: "string \<Rightarrow> string" where
  "resolve_alias command = (case map_of ALIASES command of None \<Rightarrow> command | Some c \<Rightarrow> c)"

definition is_file :: "fs \<Rightarrow> path \<Rightarrow> bool" where
  "is_file fs p = (fs p \<noteq> None)"

fun check_entries :: "fs \<Rightarrow> path \<Rightarrow> string \<Rightarrow> string \<Rightarrow> json list \<Rightarrow> py_error + bool" where
  \<comment> \<open>\<open>for entry in entries\<close>: \<open>True\<close> when the loop returns \<open>True\<close>\<close>
  "check_entries fs cw plugin_name skill_name [] = Inr False"
| "check_entries fs cw plugin_name skill_name (entry # entries) =
     (case py_get entry ''installPath'' (JStr '''') of
        Inl err \<Rightarrow> Inl err
      | Inr install_path \<Rightarrow>
          if \<not> truthy install_path then check_entries fs cw plugin_name skill_name entries
          else (case install_path of
                  JStr s \<Rightarrow>
                    (let p = absolute cw s
                     in if is_file fs (p @ [''SKILL.md'']) then Inr True
                        else if skill_name \<noteq> [] \<and>
                                is_file fs (p @ [''skills'', skill_name, ''SKILL.md''])
                        then Inr True
                        else if is_file fs (p @ [''skills'', plugin_name, ''SKILL.md''])
                        then Inr True
                        else check_entries fs cw plugin_name skill_name entries)
                | _ \<Rightarrow> Inl TypeError))"

fun check_plugins ::
  "fs \<Rightarrow> path \<Rightarrow> string \<Rightarrow> string \<Rightarrow> (string \<times> json) list \<Rightarrow> py_error + bool" where
  \<comment> \<open>\<open>for key, entries in plugins.items()\<close>\<close>
  "check_plugins fs cw plugin_name skill_name [] = Inr False"
| "check_plugins fs cw plugin_name skill_name ((key, entries) # rest) =
     (if take (length (plugin_name @ ''@'')) key \<noteq> plugin_name @ ''@''
      then check_plugins fs cw plugin_name skill_name rest
      else case entries of
             JArr es \<Rightarrow>
               (case check_entries fs cw plugin_name skill_name es of
                  Inl err \<Rightarrow> Inl err
                | Inr True \<Rightarrow> Inr True
                | Inr False \<Rightarrow> check_plugins fs cw plugin_name skill_name rest)
           | _ \<Rightarrow> check_plugins fs cw plugin_name skill_name rest)"

definition check_skill_exists :: "env \<Rightarrow> string \<Rightarrow> py_error + bool" where
  "check_skill_exists e name =
     (let claude = home e @ [''.claude'']
      in if is_file (files e) (claude @ [''commands'', name @ ''.md'']) then Inr True
         else if is_file (files e) (claude @ [''skills'', name, ''SKILL.md'']) then Inr True
         else case files e (claude @ [''plugins'', ''installed_plugins.json'']) of
                None \<Rightarrow> Inr False
              | Some Unreadable \<Rightarrow> Inr False
              | Some Malformed \<Rightarrow> Inr False
              | Some (Json plugins_data) \<Rightarrow>
                  (case py_get plugins_data ''plugins'' (JObj []) of
                     Inl err \<Rightarrow> Inl err
                   | Inr (JObj plugins) \<Rightarrow>
                       check_plugins (files e) (cwd e)
                         (takeWhile (\<lambda>c. c \<noteq> CHR '':'') name)
                         (drop 1 (dropWhile (\<lambda>c. c \<noteq> CHR '':'') name))
                         plugins
                   | Inr _ \<Rightarrow> Inr False))"

record hook_result =
  files_after :: fs
  printed :: "(string \<times> int \<times> int) option"
  raised :: "py_error option"

definition quiet :: "env \<Rightarrow> hook_result" where
  \<comment> \<open>\<open>return\<close> before anything was written or printed\<close>
  "quiet e = \<lparr>files_after = files e, printed = None, raised = None\<rparr>"

definition raise :: "env \<Rightarrow> py_error \<Rightarrow> hook_result" where
  \<comment> \<open>an exception that leaves \<open>main\<close> before anything was written or printed\<close>
  "raise e err = \<lparr>files_after = files e, printed = None, raised = Some err\<rparr>"

definition main :: "env \<Rightarrow> hook_result" where
  "main e =
     (let input_data = read_stdin_json (stdin e)
      in if input_data = JNull then quiet e
         else
          (case py_get input_data ''prompt'' (JStr '''') of
             Inl err \<Rightarrow> raise e err
           | Inr prompt \<Rightarrow>
               if \<not> truthy prompt then quiet e
               else
                (case extract_command prompt of
                   Inl err \<Rightarrow> raise e err
                 | Inr None \<Rightarrow> quiet e
                 | Inr (Some command0) \<Rightarrow>
                     (let command = resolve_alias command0
                      in (case check_skill_exists e command of
                            Inl err \<Rightarrow> raise e err
                          | Inr False \<Rightarrow> quiet e
                          | Inr True \<Rightarrow>
                              (case get_stats_path e of
                                 Inl err \<Rightarrow> raise e err
                               | Inr stats_path \<Rightarrow>
                                   (case update_stats (faults e) (tmp_names e) (today e)
                                           (files e) command stats_path of
                                      (fs', Inl err) \<Rightarrow>
                                        \<lparr>files_after = fs', printed = None,
                                         raised = (if err = OSError then None else Some err)\<rparr>
                                    | (fs', Inr (old_level, new_level)) \<Rightarrow>
                                        \<lparr>files_after = fs',
                                         printed = (if new_level > old_level
                                                    then Some (command, old_level, new_level)
                                                    else None),
                                         raised = None\<rparr>)))))))"

subsection \<open>Reading a document\<close>

definition field :: "json \<Rightarrow> string \<Rightarrow> json option" where
  "field d key = (case d of JObj kvs \<Rightarrow> map_of kvs key | _ \<Rightarrow> None)"

definition skill_stat :: "json \<Rightarrow> string \<Rightarrow> json option" where
  \<comment> \<open>\<open>skills[name]\<close> of a document, when there is one\<close>
  "skill_stat d name = (case field d ''skills'' of None \<Rightarrow> None | Some sk \<Rightarrow> field sk name)"

definition example_env :: "fs \<Rightarrow> json \<Rightarrow> env" where
  \<comment> \<open>home \<open>/home/u\<close>, working directory \<open>/work\<close>, no I/O failure, the given files and
      the given hook input on stdin\<close>
  "example_env fs inp =
     \<lparr>home = [''home'', ''u''], cwd = [''work''], today = ''2026-01-01'', files = fs,
      tmp_names = [''a1b2c3d4''], faults = no_faults, stdin = Json inp\<rparr>"

definition wrap_installed :: fs where
  \<comment> \<open>the command file that makes \<open>session-wrap:wrap\<close> a known skill\<close>
  "wrap_installed =
     [[''home'', ''u'', ''.claude'', ''commands'', ''session-wrap:wrap.md''] \<mapsto> Malformed]"

subsection \<open>The invariant of the persisted document\<close>

definition uses_of :: "json \<Rightarrow> int option" where
  \<comment> \<open>the \<open>uses\<close> counter of a SkillStat\<close>
  "uses_of e = (case field e ''uses'' of Some (JInt u) \<Rightarrow> Some u | _ \<Rightarrow> None)"

fun sum_uses :: "(string \<times> json) list \<Rightarrow> int option" where
  \<comment> \<open>the sum of \<open>skills[k].uses\<close> over the entries, when each has an integer counter\<close>
  "sum_uses [] = Some 0"
| "sum_uses ((k, e) # rest) =
     (case uses_of e of
        None \<Rightarrow> None
      | Some u \<Rightarrow> (case sum_uses rest of None \<Rightarrow> None | Some s \<Rightarrow> Some (u + s)))"

definition total_is_sum :: "json \<Rightarrow> bool" where
  "total_is_sum d =
     (case field d ''skills'' of
        Some (JObj sk) \<Rightarrow>
          distinct (map fst sk) \<and>
          (case field d ''totalUses'' of
             Some (JInt t) \<Rightarrow> sum_uses sk = Some t
           | _ \<Rightarrow> False)
      | _ \<Rightarrow> False)"

inductive reachable :: "json \<Rightarrow> bool" where
  initial: "reachable default_stats"
| hook_use:
    "reachable d \<Longrightarrow> record_use name day d = Inr (d', old_level, new_level) \<Longrightarrow> reachable d'"
| cli_use:
    "reachable d \<Longrightarrow> increment_usage_doc name day d = Inr (d1, old_level, new_level) \<Longrightarrow>
     set_last_updated day d1 = Inr d' \<Longrightarrow> reachable d'"
| cli_pin:
    "reachable d \<Longrightarrow> pin_skill_doc name d = Inr d1 \<Longrightarrow>
     set_last_updated day d1 = Inr d' \<Longrightarrow> reachable d'"

subsection \<open>Observations on a run of the hook\<close>



section \<open>Properties of the level functions\<close>

text \<open>
  C10: the level function of the hook, of the terminal CLI and of the dashboard
  generator return the same result (value or exception) for every integer.
\<close>

theorem level_implementations_agree:
  "calculate_level u = calc_level u \<and> calc_level u = calc_level_dashboard u"
  by (simp add: calculate_level_def calc_level_def calc_level_dashboard_def)

subsection \<open>The integer square root\<close>

lemma floor_sqrt_eqI:
  fixes k n :: int
  assumes "0 \<le> k" "k * k \<le> n" "n < (k + 1) * (k + 1)"
  shows "\<lfloor>sqrt (real_of_int n)\<rfloor> = k"
proof -
  have "(real_of_int k)\<^sup>2 \<le> real_of_int n"
    using assms(2) by (metis of_int_le_iff of_int_mult power2_eq_square)
  then have lo: "real_of_int k \<le> sqrt (real_of_int n)"
    by (rule real_le_rsqrt)
  have n0: "0 \<le> n"
    using assms(1,2) by (meson mult_nonneg_nonneg order_trans)
  have "real_of_int n < (real_of_int (k + 1))\<^sup>2"
    using assms(3) by (metis of_int_less_iff of_int_mult power2_eq_square)
  then have hi: "sqrt (real_of_int n) < real_of_int (k + 1)"
    using n0 assms(1) by (intro real_less_lsqrt) auto
  show ?thesis
    using lo hi by (simp add: floor_eq_iff)
qed

lemma isqrt_bounds:
  "0 \<le> n \<Longrightarrow> 0 \<le> isqrt n \<and> isqrt n * isqrt n \<le> n \<and> n < (isqrt n + 1) * (isqrt n + 1)"
proof (induction n rule: isqrt.induct)
  case (1 n)
  show ?case
  proof (cases "n < 2")
    case True
    with "1.prems" have "n = 0 \<or> n = 1" by auto
    then show ?thesis
      by (auto simp: isqrt.simps [of 0] isqrt.simps [of 1])
  next
    case False
    define q where "q = isqrt (n div 4)"
    from False "1.prems" have "0 \<le> n div 4" by simp
    with "1.IH" False have q: "0 \<le> q" "q * q \<le> n div 4" "n div 4 < (q + 1) * (q + 1)"
      by (simp_all add: q_def)
    have lo: "4 * (q * q) \<le> n"
      using q(2) by linarith
    have "n div 4 + 1 \<le> (q + 1) * (q + 1)"
      using q(3) by linarith
    then have "4 * (n div 4) + 4 \<le> 4 * ((q + 1) * (q + 1))"
      by linarith
    then have hi: "n < 4 * ((q + 1) * (q + 1))"
      by linarith
    have eq: "isqrt n = (if (2 * q + 1) * (2 * q + 1) \<le> n then 2 * q + 1 else 2 * q)"
      using False by (subst isqrt.simps) (simp add: q_def Let_def)
    show ?thesis
    proof (cases "(2 * q + 1) * (2 * q + 1) \<le> n")
      case True
      have "(2 * q + 1 + 1) * (2 * q + 1 + 1) = 4 * ((q + 1) * (q + 1))"
        by (simp add: algebra_simps)
      with True hi q(1) show ?thesis
        by (simp add: eq)
    next
      case no: False
      have "2 * q * (2 * q) = 4 * (q * q)"
        by simp
      with no lo q(1) show ?thesis
        by (simp add: eq)
    qed
  qed
qed

lemma isqrt_unique:
  assumes "0 \<le> k" "k * k \<le> n" "n < (k + 1) * (k + 1)"
  shows "isqrt n = k"
proof -
  have n: "0 \<le> n"
    using assms(1,2) by (meson mult_nonneg_nonneg order_trans)
  note b = isqrt_bounds [OF n]
  have "\<not> isqrt n < k"
  proof
    assume "isqrt n < k"
    then have "isqrt n + 1 \<le> k" by simp
    then have "(isqrt n + 1) * (isqrt n + 1) \<le> k * k"
      using b by (intro mult_mono) auto
    with b assms(2) show False by linarith
  qed
  moreover have "\<not> k < isqrt n"
  proof
    assume "k < isqrt n"
    then have "k + 1 \<le> isqrt n" by simp
    then have "(k + 1) * (k + 1) \<le> isqrt n * isqrt n"
      using assms(1) by (intro mult_mono) auto
    with b assms(3) show False by linarith
  qed
  ultimately show ?thesis by linarith
qed

lemma isqrt_mono:
  assumes "0 \<le> a" "a \<le> b"
  shows "isqrt a \<le> isqrt b"
proof (rule ccontr)
  assume "\<not> isqrt a \<le> isqrt b"
  then have "isqrt b + 1 \<le> isqrt a" by simp
  moreover have "0 \<le> isqrt b" using assms isqrt_bounds [of b] by simp
  ultimately have "(isqrt b + 1) * (isqrt b + 1) \<le> isqrt a * isqrt a"
    by (intro mult_mono) auto
  with isqrt_bounds [of a] isqrt_bounds [of b] assms show False
    by linarith
qed



lemma isqrt_greatest:
  assumes "0 \<le> j" "j * j \<le> n"
  shows "j \<le> isqrt n"
proof (rule ccontr)
  assume "\<not> j \<le> isqrt n"
  then have "isqrt n + 1 \<le> j" by simp
  moreover have n: "0 \<le> n"
    using assms by (meson mult_nonneg_nonneg order_trans)
  ultimately have "(isqrt n + 1) * (isqrt n + 1) \<le> j * j"
    using isqrt_bounds [OF n] by (intro mult_mono) auto
  with isqrt_bounds [OF n] assms(2) show False by linarith
qed

lemma isqrt_less:
  assumes "0 \<le> n" "0 \<le> j" "n < j * j"
  shows "isqrt n < j"
proof (rule ccontr)
  assume "\<not> isqrt n < j"
  then have "j * j \<le> isqrt n * isqrt n"
    using assms(2) by (intro mult_mono) auto
  with isqrt_bounds [OF assms(1)] assms(3) show False by linarith
qed

lemma isqrt_scaled:
  assumes "0 \<le> x" "0 < S"
  shows "isqrt x * S \<le> isqrt (x * (S * S)) \<and> isqrt (x * (S * S)) < (isqrt x + 1) * S"
proof -
  note b = isqrt_bounds [OF assms(1)]
  have "(isqrt x * S) * (isqrt x * S) = (isqrt x * isqrt x) * (S * S)"
    by (simp add: algebra_simps)
  also have "\<dots> \<le> x * (S * S)"
    using b assms(2) by (intro mult_right_mono) simp_all
  finally have lo: "isqrt x * S \<le> isqrt (x * (S * S))"
    using b assms(2) by (intro isqrt_greatest) simp_all
  have "x * (S * S) < ((isqrt x + 1) * (isqrt x + 1)) * (S * S)"
    using b assms(2) by (intro mult_strict_right_mono) simp_all
  also have "\<dots> = ((isqrt x + 1) * S) * ((isqrt x + 1) * S)"
    by (simp add: algebra_simps)
  finally have "isqrt (x * (S * S)) < (isqrt x + 1) * S"
    using b assms by (intro isqrt_less) simp_all
  with lo show ?thesis by simp
qed




lemma floor_sqrt_isqrt: "0 \<le> n \<Longrightarrow> \<lfloor>sqrt (real_of_int n)\<rfloor> = isqrt n"
  using isqrt_bounds [of n] by (intro floor_sqrt_eqI) simp_all

subsection \<open>Conversion to a double and the rounded root\<close>

lemma bit_length_nonpos [simp]: "n \<le> 0 \<Longrightarrow> bit_length n = 0"
  by (subst bit_length.simps) simp

lemma bit_length_pos: "0 < n \<Longrightarrow> bit_length n = Suc (bit_length (n div 2))"
  by (subst bit_length.simps) simp

lemma bit_length_upper: "n < 2 ^ bit_length n"
proof (induction n rule: bit_length.induct)
  case (1 n)
  show ?case
  proof (cases "n \<le> 0")
    case True
    then show ?thesis by simp
  next
    case False
    with "1.IH" have "n div 2 < 2 ^ bit_length (n div 2)" by simp
    then have "n < 2 * 2 ^ bit_length (n div 2)" by linarith
    with False show ?thesis by (simp add: bit_length_pos)
  qed
qed

lemma bit_length_lower: "0 < n \<Longrightarrow> 2 ^ (bit_length n - 1) \<le> n"
proof (induction n rule: bit_length.induct)
  case (1 n)
  show ?case
  proof (cases "n div 2 \<le> 0")
    case True
    with "1.prems" have "n = 1" by linarith
    then show ?thesis by (simp add: bit_length_pos)
  next
    case False
    then have pos: "0 < n div 2" by simp
    with "1.IH" "1.prems" have "2 ^ (bit_length (n div 2) - 1) \<le> n div 2" by simp
    then have "2 * 2 ^ (bit_length (n div 2) - 1) \<le> n" by linarith
    moreover have "bit_length (n div 2) = Suc (bit_length (n div 2) - 1)"
      using pos by (simp add: bit_length_pos [of "n div 2"])
    ultimately have "2 ^ bit_length (n div 2) \<le> n"
      by (metis power_Suc)
    with "1.prems" show ?thesis by (simp add: bit_length_pos)
  qed
qed

lemma bit_length_le:
  assumes "n < 2 ^ k"
  shows "bit_length n \<le> k"
proof (rule ccontr)
  assume "\<not> bit_length n \<le> k"
  then have k: "k \<le> bit_length n - 1" and pos: "0 < bit_length n" by simp_all
  have "0 < n"
    using pos by (cases "n \<le> 0") simp_all
  then have "2 ^ (bit_length n - 1) \<le> n" by (rule bit_length_lower)
  moreover have "(2::int) ^ k \<le> 2 ^ (bit_length n - 1)"
    using k by (intro power_increasing) simp_all
  ultimately show False using assms by linarith
qed

lemma bit_length_mono: "n \<le> m \<Longrightarrow> bit_length n \<le> bit_length m"
  using bit_length_upper [of m] by (intro bit_length_le) linarith




lemma div_mult_le_int:
  fixes a b :: int
  assumes "0 < b"
  shows "(a div b) * b \<le> a"
proof -
  have "0 \<le> a mod b"
    using assms by simp
  moreover have "a = (a div b) * b + a mod b"
    by simp
  ultimately show ?thesis by linarith
qed

lemma round_half_even_bounds:
  "n div 2 ^ s \<le> round_half_even n s \<and> round_half_even n s \<le> n div 2 ^ s + 1"
  by (simp add: round_half_even_def Let_def)

lemma round_half_even_mono:
  assumes "n \<le> m"
  shows "round_half_even n s \<le> round_half_even m s"
proof -
  have q: "n div 2 ^ s \<le> m div 2 ^ s"
    using assms by (intro zdiv_mono1) simp_all
  show ?thesis
  proof (cases "n div 2 ^ s = m div 2 ^ s")
    case False
    with q have "n div 2 ^ s + 1 \<le> m div 2 ^ s" by simp
    with round_half_even_bounds [of n s] round_half_even_bounds [of m s]
    show ?thesis by linarith
  next
    case True
    have "n = 2 ^ s * (n div 2 ^ s) + n mod 2 ^ s" "m = 2 ^ s * (m div 2 ^ s) + m mod 2 ^ s"
      by simp_all
    with True assms have "n mod 2 ^ s \<le> m mod 2 ^ s"
      by (metis add_le_cancel_left)
    with True show ?thesis
      by (auto simp: round_half_even_def Let_def)
  qed
qed

lemma nearest_double_bounds:
  assumes "0 < n"
  shows "2 ^ (bit_length n - 1) \<le> nearest_double n \<and> nearest_double n \<le> 2 ^ bit_length n"
proof (cases "bit_length n \<le> 53")
  case True
  with bit_length_lower [OF assms] bit_length_upper [of n] show ?thesis
    by (simp add: nearest_double_def)
next
  case False
  define s where "s = bit_length n - 53"
  have L: "bit_length n = s + 53" "bit_length n - 1 = s + 52"
    using False by (simp_all add: s_def)
  have eq: "nearest_double n = round_half_even n s * 2 ^ s"
    using False by (simp add: nearest_double_def s_def Let_def)
  have "2 ^ 52 * 2 ^ s \<le> n"
    using bit_length_lower [OF assms] by (simp add: L power_add mult.commute)
  then have "(2 ^ 52 * 2 ^ s) div 2 ^ s \<le> n div 2 ^ s"
    by (intro zdiv_mono1) simp_all
  then have "2 ^ 52 \<le> n div 2 ^ s"
    by simp
  then have lo: "2 ^ 52 \<le> round_half_even n s"
    using round_half_even_bounds [of n s] by linarith
  have upper: "n < 2 ^ 53 * 2 ^ s"
    using bit_length_upper [of n] by (simp add: L power_add mult.commute)
  have "n div 2 ^ s < 2 ^ 53"
  proof (rule ccontr)
    assume "\<not> n div 2 ^ s < 2 ^ 53"
    then have "2 ^ 53 * 2 ^ s \<le> (n div 2 ^ s) * (2::int) ^ s"
      by (intro mult_right_mono) simp_all
    moreover have "(n div 2 ^ s) * 2 ^ s \<le> n"
      by (rule div_mult_le_int) simp
    ultimately show False using upper by linarith
  qed
  then have hi: "round_half_even n s \<le> 2 ^ 53"
    using round_half_even_bounds [of n s] by linarith
  have "2 ^ 52 * 2 ^ s \<le> round_half_even n s * (2::int) ^ s"
    using lo by (intro mult_right_mono) simp_all
  moreover have "round_half_even n s * (2::int) ^ s \<le> 2 ^ 53 * 2 ^ s"
    using hi by (intro mult_right_mono) simp_all
  ultimately show ?thesis
    by (simp add: eq L power_add mult.commute)
qed





lemma nearest_double_mono:
  assumes "0 < n" "n \<le> m"
  shows "nearest_double n \<le> nearest_double m"
proof (cases "bit_length n = bit_length m")
  case True
  show ?thesis
  proof (cases "bit_length m \<le> 53")
    case le: True
    with True assms show ?thesis by (simp add: nearest_double_def)
  next
    case False
    have "round_half_even n (bit_length m - 53) * 2 ^ (bit_length m - 53)
            \<le> round_half_even m (bit_length m - 53) * (2::int) ^ (bit_length m - 53)"
      using round_half_even_mono [OF assms(2)] by (intro mult_right_mono) simp_all
    with True False show ?thesis by (simp add: nearest_double_def Let_def)
  qed
next
  case False
  with bit_length_mono [OF assms(2)] have "bit_length n \<le> bit_length m - 1" by simp
  then have "(2::int) ^ bit_length n \<le> 2 ^ (bit_length m - 1)"
    by (intro power_increasing) simp_all
  moreover have "0 < m" using assms by simp
  ultimately show ?thesis
    using nearest_double_bounds [OF assms(1)] nearest_double_bounds [of m] by linarith
qed




lemma div_lower_int:
  fixes c d n :: int
  assumes "0 < d" "c * d \<le> n"
  shows "c \<le> n div d"
proof -
  have "(c * d) div d \<le> n div d"
    using assms by (intro zdiv_mono1) simp_all
  with assms(1) show ?thesis by simp
qed

lemma div_upper_int:
  fixes c d n :: int
  assumes "0 < d" "n < c * d"
  shows "n div d < c"
proof (rule ccontr)
  assume "\<not> n div d < c"
  then have "c * d \<le> (n div d) * d"
    using assms(1) by (intro mult_right_mono) simp_all
  with div_mult_le_int [OF assms(1), of n] assms(2) show False by linarith
qed

lemma four_power: "(4::int) ^ k = 2 ^ (2 * k)"
  by (simp add: power_mult)

lemma sqrt_exponent_bounds:
  "2 * sqrt_exponent x \<le> int (bit_length x) - 105 \<and>
   int (bit_length x) - 105 \<le> 2 * sqrt_exponent x + 1"
  by (simp add: sqrt_exponent_def) linarith

lemma scaled_bounds:
  assumes "0 < x"
  defines "e \<equiv> sqrt_exponent x"
  shows "2 ^ 104 \<le> (x * 4 ^ nat (- e)) div 4 ^ nat e \<and>
         (x * 4 ^ nat (- e)) div 4 ^ nat e < 2 ^ 106"
proof -
  define L where "L = bit_length x"
  have lo: "2 ^ (L - 1) \<le> x" and hi: "x < 2 ^ L"
    using assms(1) bit_length_lower bit_length_upper by (simp_all add: L_def)
  have L1: "1 \<le> L"
    using assms(1) by (simp add: L_def bit_length_pos)
  have e: "2 * e \<le> int L - 105" "int L - 105 \<le> 2 * e + 1"
    using sqrt_exponent_bounds [of x] by (simp_all add: e_def L_def)
  show ?thesis
  proof (cases "e \<le> 0")
    case True
    define a where "a = nat (- e)"
    have a: "104 \<le> L - 1 + 2 * a" "L + 2 * a \<le> 106"
      using e True L1 by (simp_all add: a_def)
    have "(2::int) ^ 104 \<le> 2 ^ (L - 1 + 2 * a)"
      using a(1) by (intro power_increasing) simp_all
    also have "\<dots> = 2 ^ (L - 1) * 2 ^ (2 * a)"
      by (simp add: power_add)
    also have "\<dots> \<le> x * 2 ^ (2 * a)"
      using lo by (intro mult_right_mono) simp_all
    finally have 1: "2 ^ 104 \<le> x * 4 ^ a"
      by (simp add: four_power)
    have "x * 2 ^ (2 * a) < 2 ^ L * 2 ^ (2 * a)"
      using hi by (intro mult_strict_right_mono) simp_all
    also have "\<dots> = 2 ^ (L + 2 * a)"
      by (simp add: power_add)
    also have "\<dots> \<le> (2::int) ^ 106"
      using a(2) by (intro power_increasing) simp_all
    finally have 2: "x * 4 ^ a < 2 ^ 106"
      by (simp add: four_power)
    from True have "nat e = 0" by simp
    with 1 2 show ?thesis
      by (simp add: a_def)
  next
    case False
    define b where "b = nat e"
    have b: "104 + 2 * b \<le> L - 1" "L \<le> 106 + 2 * b"
      using e False L1 by (simp_all add: b_def)
    have "(2::int) ^ 104 * 2 ^ (2 * b) = 2 ^ (104 + 2 * b)"
      by (simp add: power_add)
    also have "\<dots> \<le> 2 ^ (L - 1)"
      using b(1) by (intro power_increasing) simp_all
    finally have "2 ^ 104 * 4 ^ b \<le> x"
      using lo by (simp add: four_power)
    then have 1: "2 ^ 104 \<le> x div 4 ^ b"
      by (intro div_lower_int) simp_all
    have "(2::int) ^ L \<le> 2 ^ (106 + 2 * b)"
      using b(2) by (intro power_increasing) simp_all
    also have "\<dots> = 2 ^ 106 * 2 ^ (2 * b)"
      by (simp add: power_add)
    finally have "x < 2 ^ 106 * 4 ^ b"
      using hi by (simp add: four_power)
    then have 2: "x div 4 ^ b < 2 ^ 106"
      by (intro div_upper_int) simp_all
    from False have "nat (- e) = 0" by simp
    with 1 2 show ?thesis
      by (simp add: b_def)
  qed
qed




lemma div_le_int:
  fixes c d n :: int
  assumes "0 < d" "n \<le> c * d"
  shows "n div d \<le> c"
proof -
  have "n div d \<le> (c * d) div d"
    using assms by (intro zdiv_mono1) simp_all
  with assms(1) show ?thesis by simp
qed

lemma isqrt_range:
  assumes "2 ^ 104 \<le> X" "X < 2 ^ 106"
  shows "2 ^ 52 \<le> isqrt X \<and> isqrt X < 2 ^ 53"
proof -
  have "isqrt (2 ^ 104) = 2 ^ 52"
    by (rule isqrt_unique) simp_all
  moreover have "isqrt (2 ^ 104) \<le> isqrt X"
    using assms(1) by (intro isqrt_mono) simp_all
  ultimately have lo: "2 ^ 52 \<le> isqrt X" by simp
  have X: "0 \<le> X" using assms(1) by simp
  have "isqrt X < 2 ^ 53"
  proof (rule ccontr)
    assume "\<not> isqrt X < 2 ^ 53"
    then have "2 ^ 53 * 2 ^ 53 \<le> isqrt X * isqrt X"
      by (intro mult_mono) simp_all
    with isqrt_bounds [OF X] assms(2) show False by simp
  qed
  with lo show ?thesis by simp
qed

lemma sqrt_significand_cases:
  "sqrt_significand x e = isqrt ((x * 4 ^ nat (- e)) div 4 ^ nat e) \<or>
   sqrt_significand x e = isqrt ((x * 4 ^ nat (- e)) div 4 ^ nat e) + 1"
  by (simp add: sqrt_significand_def Let_def)

lemma sqrt_significand_range:
  assumes "0 < x"
  shows "2 ^ 52 \<le> sqrt_significand x (sqrt_exponent x) \<and>
         sqrt_significand x (sqrt_exponent x) \<le> 2 ^ 53"
  using isqrt_range [OF scaled_bounds [OF assms, THEN conjunct1] scaled_bounds [OF assms, THEN conjunct2]]
    sqrt_significand_cases [of x "sqrt_exponent x"]
  by linarith

lemma sqrt_exponent_lower: "0 < x \<Longrightarrow> - 52 \<le> sqrt_exponent x"
  using sqrt_exponent_bounds [of x] by (simp add: bit_length_pos)

lemma double_to_int_range:
  assumes "- 52 \<le> e" "2 ^ 52 \<le> m" "m \<le> 2 ^ 53"
  shows "2 ^ nat (52 + e) \<le> double_to_int (m, e) \<and> double_to_int (m, e) \<le> 2 ^ nat (53 + e)"
proof (cases "0 \<le> e")
  case True
  have "nat (52 + e) = 52 + nat e" "nat (53 + e) = 53 + nat e"
    using True by simp_all
  moreover have "2 ^ 52 * 2 ^ nat e \<le> m * (2::int) ^ nat e"
    using assms(2) by (intro mult_right_mono) simp_all
  moreover have "m * (2::int) ^ nat e \<le> 2 ^ 53 * 2 ^ nat e"
    using assms(3) by (intro mult_right_mono) simp_all
  ultimately show ?thesis
    using True by (simp add: double_to_int_def power_add)
next
  case False
  define a where "a = nat (- e)"
  have a: "a \<le> 52" "nat (52 + e) = 52 - a" "nat (53 + e) = 53 - a"
    using False assms(1) by (simp_all add: a_def)
  have "(2::int) ^ (52 - a) * 2 ^ a = 2 ^ 52"
    using a(1) by (simp flip: power_add)
  with assms(2) have "2 ^ (52 - a) * 2 ^ a \<le> m" by simp
  then have lo: "2 ^ (52 - a) \<le> m div 2 ^ a"
    by (intro div_lower_int) simp_all
  have "(2::int) ^ (53 - a) * 2 ^ a = 2 ^ 53"
    using a(1) by (simp flip: power_add)
  with assms(3) have "m \<le> 2 ^ (53 - a) * 2 ^ a" by simp
  then have hi: "m div 2 ^ a \<le> 2 ^ (53 - a)"
    by (intro div_le_int) simp_all
  from lo hi False show ?thesis
    by (simp add: double_to_int_def a a_def [symmetric])
qed

lemma double_to_int_mono:
  "m \<le> m' \<Longrightarrow> double_to_int (m, e) \<le> double_to_int (m', e)"
  by (auto simp: double_to_int_def intro: zdiv_mono1 mult_right_mono)




lemma sqrt_significand_mono:
  assumes "0 \<le> x" "x \<le> y"
  shows "sqrt_significand x e \<le> sqrt_significand y e"
proof -
  define A :: int where "A = 4 ^ nat (- e)"
  define D :: int where "D = 4 ^ nat e"
  have A: "0 < A" and D: "0 < D" by (simp_all add: A_def D_def)
  have num: "x * A \<le> y * A"
    using assms(2) A by (intro mult_right_mono) simp_all
  have "0 \<le> x * A" using assms(1) A by simp
  then have X0: "0 \<le> (x * A) div D"
    using D by (simp add: pos_imp_zdiv_nonneg_iff)
  have "(x * A) div D \<le> (y * A) div D"
    using num D by (intro zdiv_mono1) simp_all
  with X0 have m0: "isqrt ((x * A) div D) \<le> isqrt ((y * A) div D)"
    by (rule isqrt_mono)
  show ?thesis
  proof (cases "isqrt ((x * A) div D) = isqrt ((y * A) div D)")
    case True
    with num show ?thesis
      unfolding sqrt_significand_def Let_def A_def [symmetric] D_def [symmetric]
      by auto
  next
    case False
    with m0 have "isqrt ((x * A) div D) + 1 \<le> isqrt ((y * A) div D)" by simp
    with sqrt_significand_cases [of x e] sqrt_significand_cases [of y e]
    show ?thesis
      unfolding A_def [symmetric] D_def [symmetric] by linarith
  qed
qed

lemma sqrt_exponent_mono: "x \<le> y \<Longrightarrow> sqrt_exponent x \<le> sqrt_exponent y"
  unfolding sqrt_exponent_def using bit_length_mono [of x y]
  by (intro zdiv_mono1) simp_all

lemma double_sqrt_mono:
  assumes "0 < x" "x \<le> y"
  shows "double_to_int (double_sqrt x) \<le> double_to_int (double_sqrt y)"
proof -
  have y: "0 < y" using assms by simp
  note rx = sqrt_significand_range [OF assms(1)] and ry = sqrt_significand_range [OF y]
  note bx = double_to_int_range [OF sqrt_exponent_lower [OF assms(1)] rx [THEN conjunct1]
      rx [THEN conjunct2]]
  note by' = double_to_int_range [OF sqrt_exponent_lower [OF y] ry [THEN conjunct1]
      ry [THEN conjunct2]]
  have eq: "double_sqrt x = (sqrt_significand x (sqrt_exponent x), sqrt_exponent x)"
    "double_sqrt y = (sqrt_significand y (sqrt_exponent y), sqrt_exponent y)"
    using assms(1) y by (simp_all add: double_sqrt_def Let_def)
  show ?thesis
  proof (cases "sqrt_exponent x = sqrt_exponent y")
    case True
    have "sqrt_significand x (sqrt_exponent y) \<le> sqrt_significand y (sqrt_exponent y)"
      using assms by (intro sqrt_significand_mono) simp_all
    then show ?thesis
      unfolding eq True by (rule double_to_int_mono)
  next
    case False
    with sqrt_exponent_mono [OF assms(2)] have "sqrt_exponent x + 1 \<le> sqrt_exponent y"
      by simp
    then have "nat (53 + sqrt_exponent x) \<le> nat (52 + sqrt_exponent y)"
      by simp
    then have "(2::int) ^ nat (53 + sqrt_exponent x) \<le> 2 ^ nat (52 + sqrt_exponent y)"
      by (intro power_increasing) simp_all
    with bx by' show ?thesis
      unfolding eq by linarith
  qed
qed




lemma nearest_double_pos: "0 < n \<Longrightarrow> 0 < nearest_double n"
proof -
  assume "0 < n"
  from nearest_double_bounds [OF this] have "2 ^ (bit_length n - 1) \<le> nearest_double n" ..
  moreover have "(0::int) < 2 ^ (bit_length n - 1)" by simp
  ultimately show ?thesis by linarith
qed

lemma int_of_math_sqrt_mono:
  assumes "0 < n" "n \<le> m" "int_of_math_sqrt m = Inr b"
  shows "\<exists>a. int_of_math_sqrt n = Inr a \<and> a \<le> b"
proof -
  from assms(3) have fin: "nearest_double m < 2 ^ 1024"
    and b: "b = double_to_int (double_sqrt (nearest_double m))"
    by (auto simp: int_of_math_sqrt_def int_to_double_def Let_def split: if_splits)
  have le: "nearest_double n \<le> nearest_double m"
    using assms(1,2) by (rule nearest_double_mono)
  with fin have "int_of_math_sqrt n = Inr (double_to_int (double_sqrt (nearest_double n)))"
    by (simp add: int_of_math_sqrt_def int_to_double_def Let_def)
  moreover have "double_to_int (double_sqrt (nearest_double n))
      \<le> double_to_int (double_sqrt (nearest_double m))"
    using nearest_double_pos [OF assms(1)] le by (rule double_sqrt_mono)
  ultimately show ?thesis
    using b by simp
qed

lemma calculate_level_mono:
  assumes "u \<le> v" "calculate_level v = Inr b"
  shows "\<exists>a. calculate_level u = Inr a \<and> a \<le> b"
proof (cases "u \<le> 0")
  case True
  have "0 \<le> b"
    using assms(2) by (auto simp: calculate_level_def split: if_splits sum.splits)
  with True show ?thesis
    by (simp add: calculate_level_def)
next
  case False
  then have u: "0 < u * 10" and v: "\<not> v \<le> 0" and le: "u * 10 \<le> v * 10"
    using assms(1) by simp_all
  from assms(2) v obtain r where r: "int_of_math_sqrt (v * 10) = Inr r" and b: "b = max 1 r"
    by (auto simp: calculate_level_def split: sum.splits)
  from int_of_math_sqrt_mono [OF u le r] obtain a where
    "int_of_math_sqrt (u * 10) = Inr a" "a \<le> r"
    by blast
  with False b show ?thesis
    by (simp add: calculate_level_def)
qed



lemma double_sqrt_exact:
  assumes "0 < x" "x < 2 ^ 52"
  shows "double_to_int (double_sqrt x) = isqrt x"
proof -
  define e where "e = sqrt_exponent x"
  define a where "a = nat (- e)"
  define S :: int where "S = 2 ^ a"
  define k where "k = isqrt x"
  define m0 where "m0 = isqrt (x * (S * S))"
  define P where "P = (k + 1) * S"
  have "bit_length x \<le> 52"
    using assms(2) by (rule bit_length_le)
  with sqrt_exponent_bounds [of x] have e: "e \<le> - 27"
    by (simp add: e_def)
  then have a: "27 \<le> a" and e_neg: "e < 0" "nat e = 0" "nat (- e) = a"
    by (simp_all add: a_def)
  have S: "0 < S"
    by (simp add: S_def)
  have S27: "2 ^ 27 \<le> S"
    unfolding S_def using a by (intro power_increasing) simp_all
  have SS: "(4::int) ^ a = S * S"
    by (simp add: S_def four_power power_add mult_2)
  have x0: "0 \<le> x" using assms(1) by simp
  note kb = isqrt_bounds [OF x0, folded k_def]
  have scaled: "k * S \<le> m0" "m0 < P"
    using isqrt_scaled [OF x0 S] by (simp_all add: k_def m0_def P_def)
  have "k < 2 ^ 26"
    unfolding k_def using x0 assms(2) by (intro isqrt_less) simp_all
  then have kS: "k + 1 < S"
    using S27 by simp
  define m where "m = sqrt_significand x e"
  have m: "m = (if 4 * (x * (S * S)) > (2 * m0 + 1) * (2 * m0 + 1) \<or>
                   (4 * (x * (S * S)) = (2 * m0 + 1) * (2 * m0 + 1) \<and> odd m0)
                then m0 + 1 else m0)"
    by (simp add: m_def sqrt_significand_def Let_def e_neg SS m0_def)
  have "m < P"
  proof (rule ccontr)
    assume "\<not> m < P"
    with scaled(2) m have m1: "m0 + 1 = P"
      and up: "(2 * m0 + 1) * (2 * m0 + 1) \<le> 4 * (x * (S * S))"
      by (auto split: if_splits)
    have "x \<le> (k + 1) * (k + 1) - 1"
      using kb by simp
    then have "x * (S * S) \<le> ((k + 1) * (k + 1) - 1) * (S * S)"
      using S by (intro mult_right_mono) simp_all
    also have "\<dots> = P * P - S * S"
      by (simp add: P_def algebra_simps)
    finally have X: "x * (S * S) \<le> P * P - S * S" .
    have "(2 * (P - 1) + 1) * (2 * (P - 1) + 1) = 4 * (P * P) - 4 * P + 1"
      by (simp add: algebra_simps)
    moreover have "m0 = P - 1"
      using m1 by simp
    ultimately have "(2 * m0 + 1) * (2 * m0 + 1) = 4 * (P * P) - 4 * P + 1"
      by simp
    with up X have "S * S < P"
      by linarith
    then have "S * S < (k + 1) * S"
      by (simp add: P_def)
    then have "S < k + 1"
      using S by simp
    with kS show False by simp
  qed
  then have hi: "m div S < k + 1"
    using S by (intro div_upper_int) (simp_all add: P_def)
  have "k * S \<le> m"
    using scaled(1) m by (auto split: if_splits)
  then have lo: "k \<le> m div S"
    using S by (intro div_lower_int) simp_all
  have "double_to_int (double_sqrt x) = m div S"
    using assms(1) e_neg
    by (simp add: double_sqrt_def Let_def double_to_int_def e_def [symmetric] m_def S_def
        four_power)
  with lo hi show ?thesis
    by (simp add: k_def)
qed

subsection \<open>The level of a usage count\<close>

lemma level_examples:
  "calculate_level 0 = Inr 0 \<and> calculate_level 10 = Inr 10 \<and>
   calculate_level 100 = Inr 31 \<and> calculate_level 1000 = Inr 100"
  by code_simp

lemma calculate_level_exact:
  assumes "0 < u" "u * 10 < 2 ^ 52"
  shows "calculate_level u = Inr (max 1 \<lfloor>sqrt (real_of_int (u * 10))\<rfloor>)"
proof -
  have "bit_length (u * 10) \<le> 52"
    using assms(2) by (rule bit_length_le)
  then have near: "nearest_double (u * 10) = u * 10"
    by (simp add: nearest_double_def)
  have "(2::int) ^ 52 \<le> 2 ^ 1024"
    by (intro power_increasing) simp_all
  with assms(2) have "\<not> 2 ^ 1024 \<le> u * 10"
    by linarith
  with near have "int_of_math_sqrt (u * 10) = Inr (double_to_int (double_sqrt (u * 10)))"
    by (simp add: int_of_math_sqrt_def int_to_double_def)
  moreover have "double_to_int (double_sqrt (u * 10)) = isqrt (u * 10)"
    using assms by (intro double_sqrt_exact) simp_all
  moreover have "\<lfloor>sqrt (real_of_int (u * 10))\<rfloor> = isqrt (u * 10)"
    using assms(1) by (intro floor_sqrt_isqrt) simp
  ultimately show ?thesis
    using assms(1) by (simp add: calculate_level_def)
qed

text \<open>
  C3: the level of \<open>u > 0\<close> is to be \<open>max(1, floor(sqrt(u * 10)))\<close>.  The code takes
  the root in double precision.  While \<open>u * 10 < 2 ^ 52\<close> the result is the floor of the
  root (\<open>calculate_level_exact\<close>), but at \<open>u = 450360029845916\<close> the exact root of
  \<open>u * 10 = 67108869\<^sup>2 - 1\<close> lies closer to the double \<open>67108869\<close> than to the double
  below it, so both level functions return \<open>67108869\<close>, while the floor of the root
  is \<open>67108868\<close>.
\<close>

theorem level_not_floor_sqrt:
  "calculate_level 450360029845916 = Inr 67108869 \<and>
   calc_level 450360029845916 = Inr 67108869 \<and>
   max 1 \<lfloor>sqrt (real_of_int (450360029845916 * 10))\<rfloor> = 67108868"
proof -
  have a: "calculate_level 450360029845916 = Inr 67108869"
    by code_simp
  have b: "calc_level 450360029845916 = Inr 67108869"
    by code_simp
  have "\<lfloor>sqrt (real_of_int (450360029845916 * 10))\<rfloor> = 67108868"
    by (rule floor_sqrt_eqI) simp_all
  then have c: "max 1 \<lfloor>sqrt (real_of_int (450360029845916 * 10))\<rfloor> = 67108868"
    by simp
  from a b c show ?thesis by blast
qed

lemma largest_converted: "nearest_double (2 ^ 1024 - 2 ^ 970 - 1) < 2 ^ 1024"
  by code_simp

lemma calculate_level_defined:
  assumes "u * 10 < 2 ^ 1024 - 2 ^ 970"
  shows "\<exists>a. calculate_level u = Inr a"
proof (cases "u \<le> 0")
  case True
  then show ?thesis by (simp add: calculate_level_def)
next
  case False
  then have "0 < u * 10" by simp
  moreover have "u * 10 \<le> 2 ^ 1024 - 2 ^ 970 - 1"
    using assms by simp
  ultimately have "nearest_double (u * 10) \<le> nearest_double (2 ^ 1024 - 2 ^ 970 - 1)"
    by (rule nearest_double_mono)
  then have "nearest_double (u * 10) < 2 ^ 1024"
    using largest_converted by (rule le_less_trans)
  with False show ?thesis
    by (simp add: calculate_level_def int_of_math_sqrt_def int_to_double_def Let_def)
qed

text \<open>
  C9: \<open>level(u) \<le> level(u + 1)\<close> for every non-negative \<open>u\<close>.  The code has a level for
  \<open>u\<close> while \<open>u * 10 < 2 ^ 1024 - 2 ^ 970\<close> (\<open>calculate_level_defined\<close>), and these
  levels never decrease (\<open>calculate_level_mono\<close>).  From \<open>u = 2 ^ 1024\<close> on the product
  \<open>u * 10\<close> has no double, \<open>math.sqrt\<close> raises \<open>OverflowError\<close>, and the level function
  returns no level to compare.
\<close>

theorem level_overflow:
  "calculate_level (2 ^ 1024) = Inl OverflowError \<and>
   calculate_level (2 ^ 1024 + 1) = Inl OverflowError"
  by code_simp

section \<open>Properties of the Stats Store and of the hook\<close>

lemma calc_level_0: "calc_level 0 = Inr 0"
  by (simp add: calc_level_def)

lemma calc_level_1: "calc_level 1 = Inr 3"
  by code_simp

lemma calculate_level_0: "calculate_level 0 = Inr 0"
  by (simp add: calculate_level_def)

lemma calculate_level_1: "calculate_level 1 = Inr 3"
  by code_simp

text \<open>
  C1: every durable write goes through a temporary file and one rename, and a failed
  write leaves the stats file as it was.  The hook's \<open>write_stats_atomic\<close> does so (third
  conjunct), but \<open>save_stats\<close> of the terminal CLI, called by \<open>pin_skill\<close> and
  \<open>increment_usage\<close>, opens the stats file itself for writing: when the write fails, the
  previous document is gone.
\<close>

theorem save_stats_not_atomic:
  "fst (pin_skill (no_faults\<lparr>write_fails := True\<rparr>) day (fs(p \<mapsto> Json old)) p ''foo''
          (cli_default_stats day)) p = Some Malformed \<and>
   fst (increment_usage (no_faults\<lparr>write_fails := True\<rparr>) day (fs(p \<mapsto> Json old)) p ''foo''
          (cli_default_stats day)) p = Some Malformed \<and>
   fst (write_stats_atomic (no_faults\<lparr>write_fails := True\<rparr>) [n] (Map.empty(p \<mapsto> Json old)) p
          new) p = Some (Json old)"
  by (simp add: pin_skill_def increment_usage_def pin_skill_doc_def increment_usage_doc_def
      save_stats_def set_last_updated_def cli_default_stats_def try_bind_def new_skill_def
      no_faults_def calc_level_0 calc_level_1 write_stats_atomic_def unlink_quietly_def Let_def)

text \<open>
  C4: loading never raises.  The hook's \<open>load_stats\<close> returns the default document for a
  file that is not JSON; \<open>load_stats\<close> of the terminal CLI has no handler and raises
  \<open>JSONDecodeError\<close>.
\<close>

theorem cli_load_stats_raises:
  "cli_load_stats day (fs(p \<mapsto> Malformed)) p = Inl JSONDecodeError \<and>
   load_stats (fs(p \<mapsto> Malformed)) p = Inr default_stats"
  by (simp add: cli_load_stats_def load_stats_def)

text \<open>
  C6: the hook never lets an exception escape.  \<open>main\<close> catches \<open>OSError\<close> only: with the
  stats file holding the JSON list \<open>[]\<close>, \<open>stats.get\<close> in \<open>update_stats\<close> raises
  \<open>AttributeError\<close>, which leaves \<open>main\<close>.
\<close>

theorem hook_raises_on_list_document:
  "raised (main (example_env
      (wrap_installed([''home'', ''u'', ''.claude'', ''skillbook-stats.json''] \<mapsto> Json (JArr [])))
      (JObj [(''prompt'', JStr ''/wrap'')]))) = Some AttributeError"
  by code_simp

text \<open>
  C8: a configured stats path outside the home directory is rejected before any write.
  The installer's \<open>_validate_stats_path\<close> rejects \<open>/tmp/stats.json\<close>, but the hook's
  \<open>get_stats_path\<close> returns it unchecked and the hook writes the document there.
\<close>

theorem hook_writes_outside_home:
  "get_stats_path (example_env
      (wrap_installed([''home'', ''u'', ''.claude'', ''skillbook.config.json''] \<mapsto>
          Json (JObj [(''statsFile'', JStr ''/tmp/stats.json'')])))
      (JObj [(''prompt'', JStr ''/wrap'')])) = Inr [''tmp'', ''stats.json''] \<and>
   files_after (main (example_env
      (wrap_installed([''home'', ''u'', ''.claude'', ''skillbook.config.json''] \<mapsto>
          Json (JObj [(''statsFile'', JStr ''/tmp/stats.json'')])))
      (JObj [(''prompt'', JStr ''/wrap'')]))) [''tmp'', ''stats.json''] \<noteq> None \<and>
   validate_stats_path [''home'', ''u''] [''work''] ''/tmp/stats.json'' = Inl ValueError"
  by code_simp

lemma field_JObj [simp]: "field (JObj kvs) key = map_of kvs key"
  by (simp add: field_def)

lemma field_SomeD: "field d key = Some v \<Longrightarrow> \<exists>kvs. d = JObj kvs \<and> map_of kvs key = Some v"
  by (cases d) (simp_all add: field_def)

text \<open>
  C7: recording a use of a skill that the document does not have yet.  Both \<open>update_stats\<close>
  of the hook and \<open>increment_usage\<close> of the terminal CLI create the entry, return the old
  level \<open>0\<close> and the new level \<open>level(1)\<close>, and yield a document in which the entry has
  \<open>uses = 1\<close> and \<open>lastUsed\<close> the current date, and \<open>totalUses\<close> is one greater than before.
\<close>

theorem record_use_new_skill:
  assumes "field d ''skills'' = Some (JObj sk)"
    and "map_of sk name = None"
    and "field d ''totalUses'' = Some (JInt t)"
  shows "(\<exists>d' e new_level.
           record_use name day d = Inr (d', 0, new_level) \<and>
           calculate_level 1 = Inr new_level \<and>
           skill_stat d' name = Some e \<and>
           field e ''uses'' = Some (JInt 1) \<and>
           field e ''lastUsed'' = Some (JStr day) \<and>
           field d' ''totalUses'' = Some (JInt (t + 1))) \<and>
         (\<exists>d' e new_level.
           increment_usage_doc name day d = Inr (d', 0, new_level) \<and>
           calc_level 1 = Inr new_level \<and>
           skill_stat d' name = Some e \<and>
           field e ''uses'' = Some (JInt 1) \<and>
           field e ''lastUsed'' = Some (JStr day) \<and>
           field d' ''totalUses'' = Some (JInt (t + 1)))"
proof -
  from assms(1) obtain kvs where d: "d = JObj kvs" and sk: "map_of kvs ''skills'' = Some (JObj sk)"
    by (auto dest: field_SomeD)
  from assms(3) d have t: "map_of kvs ''totalUses'' = Some (JInt t)"
    by simp
  have hook: "\<exists>d' e new_level.
           record_use name day d = Inr (d', 0, new_level) \<and>
           calculate_level 1 = Inr new_level \<and>
           skill_stat d' name = Some e \<and>
           field e ''uses'' = Some (JInt 1) \<and>
           field e ''lastUsed'' = Some (JStr day) \<and>
           field d' ''totalUses'' = Some (JInt (t + 1))"
    using sk t assms(2)
    by (simp add: d record_use_def try_bind_def new_skill_def update_conv' skill_stat_def
        calculate_level_0 calculate_level_1)
  have cli: "\<exists>d' e new_level.
           increment_usage_doc name day d = Inr (d', 0, new_level) \<and>
           calc_level 1 = Inr new_level \<and>
           skill_stat d' name = Some e \<and>
           field e ''uses'' = Some (JInt 1) \<and>
           field e ''lastUsed'' = Some (JStr day) \<and>
           field d' ''totalUses'' = Some (JInt (t + 1))"
    using sk t assms(2)
    by (simp add: d increment_usage_doc_def try_bind_def new_skill_def update_conv' skill_stat_def
        calc_level_0 calc_level_1)
  from hook cli show ?thesis by (rule conjI)
qed

theorem record_use_new_skill_witness:
  "field default_stats ''skills'' = Some (JObj []) \<and>
   map_of ([] :: (string \<times> json) list) ''foo'' = None \<and>
   field default_stats ''totalUses'' = Some (JInt 0) \<and>
   (\<exists>d' e new_level.
      record_use ''foo'' ''2026-01-01'' default_stats = Inr (d', 0, new_level) \<and>
      calculate_level 1 = Inr new_level \<and>
      skill_stat d' ''foo'' = Some e \<and>
      field e ''uses'' = Some (JInt 1) \<and>
      field e ''lastUsed'' = Some (JStr ''2026-01-01'') \<and>
      field d' ''totalUses'' = Some (JInt 1))"
proof -
  have h1: "field default_stats ''skills'' = Some (JObj [])"
    by (simp add: default_stats_def)
  have h2: "map_of ([] :: (string \<times> json) list) ''foo'' = None"
    by simp
  have h3: "field default_stats ''totalUses'' = Some (JInt 0)"
    by (simp add: default_stats_def)
  from record_use_new_skill [OF h1 h2 h3, of "''2026-01-01''"] h1 h2 h3
  show ?thesis by simp
qed

lemma uses_of_SomeD:
  "uses_of e = Some u \<Longrightarrow> \<exists>ekvs. e = JObj ekvs \<and> map_of ekvs ''uses'' = Some (JInt u)"
  by (cases e) (auto simp: uses_of_def field_def split: option.splits json.splits)

lemma uses_of_JObj:
  "map_of ekvs ''uses'' = Some (JInt u) \<Longrightarrow> uses_of (JObj ekvs) = Some u"
  by (simp add: uses_of_def)

lemma uses_of_new_skill: "uses_of new_skill = Some 0"
  by (simp add: uses_of_def new_skill_def)

lemma sum_uses_add:
  "map_of sk name = None \<Longrightarrow> uses_of e = Some 0 \<Longrightarrow>
   sum_uses (AList.update name e sk) = sum_uses sk"
  by (induction sk) (auto split: option.splits)

lemma sum_uses_entry:
  "sum_uses sk = Some s \<Longrightarrow> map_of sk name = Some e \<Longrightarrow> \<exists>u. uses_of e = Some u"
  by (induction sk arbitrary: s) (auto split: option.splits if_splits)

lemma sum_uses_replace:
  "sum_uses sk = Some s \<Longrightarrow> map_of sk name = Some e \<Longrightarrow> uses_of e = Some u \<Longrightarrow>
   uses_of e' = Some u' \<Longrightarrow> sum_uses (AList.update name e' sk) = Some (s - u + u')"
  by (induction sk arbitrary: s) (auto split: option.splits if_splits)



lemma total_is_sumD:
  assumes "total_is_sum d"
  obtains kvs sk t where "d = JObj kvs" "map_of kvs ''skills'' = Some (JObj sk)"
    "map_of kvs ''totalUses'' = Some (JInt t)" "distinct (map fst sk)" "sum_uses sk = Some t"
proof -
  from assms obtain kvs where d: "d = JObj kvs"
    by (cases d) (simp_all add: total_is_sum_def field_def)
  from assms obtain sk where sk: "map_of kvs ''skills'' = Some (JObj sk)"
    unfolding d total_is_sum_def field_JObj
    by (cases "map_of kvs ''skills''"; simp split: json.splits)
  from assms sk obtain t where "map_of kvs ''totalUses'' = Some (JInt t)" "distinct (map fst sk)" "sum_uses sk = Some t"
    unfolding d total_is_sum_def field_JObj
    by (cases "map_of kvs ''totalUses''"; simp split: json.splits)
  with d sk show ?thesis by (rule that)
qed

lemma total_is_sumI:
  "map_of kvs ''skills'' = Some (JObj sk) \<Longrightarrow> map_of kvs ''totalUses'' = Some (JInt t) \<Longrightarrow>
   distinct (map fst sk) \<Longrightarrow> sum_uses sk = Some t \<Longrightarrow> total_is_sum (JObj kvs)"
  by (simp add: total_is_sum_def)




lemma ensure_skill_sum:
  assumes "distinct (map fst sk)" "sum_uses sk = Some t"
  obtains sk1 ekvs u where "ensure_skill (JObj sk) name = Inr (JObj sk1)"
    "distinct (map fst sk1)" "sum_uses sk1 = Some t"
    "map_of sk1 name = Some (JObj ekvs)" "map_of ekvs ''uses'' = Some (JInt u)"
proof (cases "map_of sk name")
  case None
  let ?sk1 = "AList.update name new_skill sk"
  have 1: "ensure_skill (JObj sk) name = Inr (JObj ?sk1)" using None by simp
  have 2: "distinct (map fst ?sk1)" using assms(1) by (rule distinct_update)
  have 3: "sum_uses ?sk1 = Some t"
    using None assms(2) by (simp add: sum_uses_add uses_of_new_skill)
  have 4: "map_of ?sk1 name = Some (JObj [(''uses'', JInt 0), (''lastUsed'', JNull), (''pinned'', JBool False)])"
    by (simp add: update_conv' new_skill_def)
  have 5: "map_of [(''uses'', JInt 0), (''lastUsed'', JNull), (''pinned'', JBool False)] ''uses'' = Some (JInt 0)"
    by simp
  from 1 2 3 4 5 show ?thesis by (rule that)
next
  case (Some e)
  then obtain u where "uses_of e = Some u"
    using assms(2) sum_uses_entry by blast
  then obtain ekvs where e: "e = JObj ekvs" and u: "map_of ekvs ''uses'' = Some (JInt u)"
    using uses_of_SomeD by blast
  have 1: "ensure_skill (JObj sk) name = Inr (JObj sk)" using Some by simp
  have 4: "map_of sk name = Some (JObj ekvs)" using Some e by simp
  from 1 assms(1) assms(2) 4 u show ?thesis by (rule that)
qed




lemma try_bind_Inr [simp]: "try_bind (Inr x) f = f x"
  by (simp add: try_bind_def)

lemma try_bind_Inl [simp]: "try_bind (Inl e) f = Inl e"
  by (simp add: try_bind_def)

lemma try_bind_eq_Inr:
  "try_bind m f = Inr y \<longleftrightarrow> (\<exists>x. m = Inr x \<and> f x = Inr y)"
  by (cases m) simp_all

lemma record_use_wf:
  assumes sk: "map_of kvs ''skills'' = Some (JObj sk)"
    and t: "map_of kvs ''totalUses'' = Some (JInt t)"
    and ens: "ensure_skill (JObj sk) name = Inr (JObj sk1)"
    and entry: "map_of sk1 name = Some (JObj ekvs)"
    and uses: "map_of ekvs ''uses'' = Some (JInt u)"
  shows "record_use name day (JObj kvs) =
          try_bind (calculate_level u) (\<lambda>old. try_bind (calculate_level (u + 1)) (\<lambda>new.
            Inr (JObj (AList.update ''lastUpdated'' (JStr day)
                 (AList.update ''totalUses'' (JInt (t + 1))
                    (AList.update ''skills'' (JObj (AList.update name
                       (JObj (AList.update ''lastUsed'' (JStr day)
                          (AList.update ''uses'' (JInt (u + 1)) ekvs))) sk1)) kvs))), old, new)))"
  unfolding record_use_def
  by (simp add: sk t ens entry uses del: ensure_skill.simps)




lemma increment_usage_wf:
  assumes sk: "map_of kvs ''skills'' = Some (JObj sk)"
    and t: "map_of kvs ''totalUses'' = Some (JInt t)"
    and ens: "ensure_skill (JObj sk) name = Inr (JObj sk1)"
    and entry: "map_of sk1 name = Some (JObj ekvs)"
    and uses: "map_of ekvs ''uses'' = Some (JInt u)"
  shows "increment_usage_doc name day (JObj kvs) =
          try_bind (calc_level u) (\<lambda>old. try_bind (calc_level (u + 1)) (\<lambda>new.
            Inr (JObj (AList.update ''totalUses'' (JInt (t + 1))
                    (AList.update ''skills'' (JObj (AList.update name
                       (JObj (AList.update ''lastUsed'' (JStr day)
                          (AList.update ''uses'' (JInt (u + 1)) ekvs))) sk1)) kvs)), old, new)))"
  unfolding increment_usage_doc_def
  by (simp add: sk t ens entry uses update_conv' del: ensure_skill.simps)

lemma pin_skill_wf:
  assumes sk: "map_of kvs ''skills'' = Some (JObj sk)"
    and ens: "ensure_skill (JObj sk) name = Inr (JObj sk1)"
    and entry: "map_of sk1 name = Some (JObj ekvs)"
  shows "pin_skill_doc name (JObj kvs) =
          Inr (JObj (AList.update ''skills'' (JObj (AList.update name
                 (JObj (AList.update ''pinned''
                    (JBool (\<not> truthy (case map_of ekvs ''pinned'' of None \<Rightarrow> JBool False | Some v \<Rightarrow> v)))
                    ekvs)) sk1)) kvs))"
  unfolding pin_skill_doc_def
  by (simp add: sk ens entry del: ensure_skill.simps)

lemma counted_document:
  assumes dist1: "distinct (map fst sk1)" and sum1: "sum_uses sk1 = Some t"
    and entry: "map_of sk1 name = Some (JObj ekvs)" and uses: "map_of ekvs ''uses'' = Some (JInt u)"
    and uses': "map_of ekvs' ''uses'' = Some (JInt (u + n))"
    and skills: "map_of kvs' ''skills'' = Some (JObj (AList.update name (JObj ekvs') sk1))"
    and total: "map_of kvs' ''totalUses'' = Some (JInt (t + n))"
  shows "total_is_sum (JObj kvs')"
proof -
  have "sum_uses (AList.update name (JObj ekvs') sk1) = Some (t - u + (u + n))"
    using sum1 entry by (rule sum_uses_replace) (simp_all add: uses_of_JObj uses uses')
  then have "sum_uses (AList.update name (JObj ekvs') sk1) = Some (t + n)"
    by simp
  moreover have "distinct (map fst (AList.update name (JObj ekvs') sk1))"
    using dist1 by (rule distinct_update)
  ultimately show ?thesis
    using skills total by (intro total_is_sumI)
qed




lemma record_use_preserves:
  assumes inv: "total_is_sum d" and step: "record_use name day d = Inr (d', old_level, new_level)"
  shows "total_is_sum d'"
proof -
  from inv obtain kvs sk t where d: "d = JObj kvs" and sk: "map_of kvs ''skills'' = Some (JObj sk)"
    and t: "map_of kvs ''totalUses'' = Some (JInt t)" and dist: "distinct (map fst sk)"
    and sum: "sum_uses sk = Some t"
    by (rule total_is_sumD)
  from dist sum obtain sk1 ekvs u where ens: "ensure_skill (JObj sk) name = Inr (JObj sk1)"
    and dist1: "distinct (map fst sk1)" and sum1: "sum_uses sk1 = Some t"
    and entry: "map_of sk1 name = Some (JObj ekvs)" and uses: "map_of ekvs ''uses'' = Some (JInt u)"
    by (rule ensure_skill_sum)
  from step obtain kvs' where d': "d' = JObj kvs'"
    and kvs': "kvs' = AList.update ''lastUpdated'' (JStr day)
                 (AList.update ''totalUses'' (JInt (t + 1))
                    (AList.update ''skills'' (JObj (AList.update name
                       (JObj (AList.update ''lastUsed'' (JStr day)
                          (AList.update ''uses'' (JInt (u + 1)) ekvs))) sk1)) kvs))"
    unfolding d record_use_wf [OF sk t ens entry uses] try_bind_eq_Inr by auto
  show ?thesis
    unfolding d' using dist1 sum1 entry uses
  proof (rule counted_document)
    show "map_of (AList.update ''lastUsed'' (JStr day) (AList.update ''uses'' (JInt (u + 1)) ekvs))
            ''uses'' = Some (JInt (u + 1))"
      by (simp add: update_conv')
    show "map_of kvs' ''skills'' = Some (JObj (AList.update name
            (JObj (AList.update ''lastUsed'' (JStr day) (AList.update ''uses'' (JInt (u + 1)) ekvs)))
            sk1))"
      by (simp add: kvs' update_conv')
    show "map_of kvs' ''totalUses'' = Some (JInt (t + 1))"
      by (simp add: kvs' update_conv')
  qed
qed

lemma set_last_updated_preserves:
  assumes "total_is_sum d1" and "set_last_updated day d1 = Inr d'"
  shows "total_is_sum d'"
proof -
  from assms(1) obtain kvs sk t where d: "d1 = JObj kvs" and sk: "map_of kvs ''skills'' = Some (JObj sk)"
    and t: "map_of kvs ''totalUses'' = Some (JInt t)" and dist: "distinct (map fst sk)"
    and sum: "sum_uses sk = Some t"
    by (rule total_is_sumD)
  from assms(2) have "d' = JObj (AList.update ''lastUpdated'' (JStr day) kvs)"
    by (simp add: d set_last_updated_def)
  then show ?thesis
    using sk t dist sum by (simp add: total_is_sum_def update_conv')
qed

lemma increment_usage_preserves:
  assumes inv: "total_is_sum d"
    and step: "increment_usage_doc name day d = Inr (d', old_level, new_level)"
  shows "total_is_sum d'"
proof -
  from inv obtain kvs sk t where d: "d = JObj kvs" and sk: "map_of kvs ''skills'' = Some (JObj sk)"
    and t: "map_of kvs ''totalUses'' = Some (JInt t)" and dist: "distinct (map fst sk)"
    and sum: "sum_uses sk = Some t"
    by (rule total_is_sumD)
  from dist sum obtain sk1 ekvs u where ens: "ensure_skill (JObj sk) name = Inr (JObj sk1)"
    and dist1: "distinct (map fst sk1)" and sum1: "sum_uses sk1 = Some t"
    and entry: "map_of sk1 name = Some (JObj ekvs)" and uses: "map_of ekvs ''uses'' = Some (JInt u)"
    by (rule ensure_skill_sum)
  from step obtain kvs' where d': "d' = JObj kvs'"
    and kvs': "kvs' = AList.update ''totalUses'' (JInt (t + 1))
                    (AList.update ''skills'' (JObj (AList.update name
                       (JObj (AList.update ''lastUsed'' (JStr day)
                          (AList.update ''uses'' (JInt (u + 1)) ekvs))) sk1)) kvs)"
    unfolding d increment_usage_wf [OF sk t ens entry uses] try_bind_eq_Inr by auto
  show ?thesis
    unfolding d' using dist1 sum1 entry uses
  proof (rule counted_document)
    show "map_of (AList.update ''lastUsed'' (JStr day) (AList.update ''uses'' (JInt (u + 1)) ekvs))
            ''uses'' = Some (JInt (u + 1))"
      by (simp add: update_conv')
    show "map_of kvs' ''skills'' = Some (JObj (AList.update name
            (JObj (AList.update ''lastUsed'' (JStr day) (AList.update ''uses'' (JInt (u + 1)) ekvs)))
            sk1))"
      by (simp add: kvs' update_conv')
    show "map_of kvs' ''totalUses'' = Some (JInt (t + 1))"
      by (simp add: kvs' update_conv')
  qed
qed

lemma pin_skill_preserves:
  assumes inv: "total_is_sum d" and step: "pin_skill_doc name d = Inr d'"
  shows "total_is_sum d'"
proof -
  from inv obtain kvs sk t where d: "d = JObj kvs" and sk: "map_of kvs ''skills'' = Some (JObj sk)"
    and t: "map_of kvs ''totalUses'' = Some (JInt t)" and dist: "distinct (map fst sk)"
    and sum: "sum_uses sk = Some t"
    by (rule total_is_sumD)
  from dist sum obtain sk1 ekvs u where ens: "ensure_skill (JObj sk) name = Inr (JObj sk1)"
    and dist1: "distinct (map fst sk1)" and sum1: "sum_uses sk1 = Some t"
    and entry: "map_of sk1 name = Some (JObj ekvs)" and uses: "map_of ekvs ''uses'' = Some (JInt u)"
    by (rule ensure_skill_sum)
  define ekvs' where "ekvs' = AList.update ''pinned''
      (JBool (\<not> truthy (case map_of ekvs ''pinned'' of None \<Rightarrow> JBool False | Some v \<Rightarrow> v))) ekvs"
  from step have d': "d' = JObj (AList.update ''skills'' (JObj (AList.update name (JObj ekvs') sk1)) kvs)"
    unfolding d pin_skill_wf [OF sk ens entry] ekvs'_def by simp
  show ?thesis
    unfolding d' using dist1 sum1 entry uses
  proof (rule counted_document)
    show "map_of ekvs' ''uses'' = Some (JInt (u + 0))"
      by (simp add: ekvs'_def update_conv' uses)
    show "map_of (AList.update ''skills'' (JObj (AList.update name (JObj ekvs') sk1)) kvs) ''skills''
            = Some (JObj (AList.update name (JObj ekvs') sk1))"
      by (simp add: update_conv')
    show "map_of (AList.update ''skills'' (JObj (AList.update name (JObj ekvs') sk1)) kvs)
            ''totalUses'' = Some (JInt (t + 0))"
      by (simp add: update_conv' t)
  qed
qed

lemma total_is_sum_default: "total_is_sum default_stats"
  by (simp add: total_is_sum_def default_stats_def)

text \<open>
  C2: every document reachable from the initial document by recording uses (in the hook
  or in the terminal CLI) and toggling pins has \<open>totalUses\<close> equal to the sum of the
  \<open>uses\<close> counters of its skills.  The reachable documents other than the initial one are
  exactly those handed to \<open>write_stats_atomic\<close> and \<open>save_stats\<close>.
\<close>

theorem total_uses_invariant: "reachable d \<Longrightarrow> total_is_sum d"
proof (induction rule: reachable.induct)
  case initial
  show ?case by (rule total_is_sum_default)
next
  case (hook_use d name day d' old_level new_level)
  then show ?case by (blast intro: record_use_preserves)
next
  case (cli_use d name day d1 old_level new_level d')
  then show ?case by (blast intro: increment_usage_preserves set_last_updated_preserves)
next
  case (cli_pin d name d1 day d')
  then show ?case by (blast intro: pin_skill_preserves set_last_updated_preserves)
qed

theorem total_uses_invariant_witness:
  "reachable (JObj [(''version'', JInt 1), (''totalUses'', JInt 1),
      (''skills'', JObj [(''foo'', JObj [(''uses'', JInt 1), (''lastUsed'', JStr ''2026-01-01''),
                                        (''pinned'', JBool False)]),
                        (''bar'', JObj [(''uses'', JInt 0), (''lastUsed'', JNull),
                                        (''pinned'', JBool True)])]),
      (''lastUpdated'', JStr ''2026-01-02'')]) \<and>
   total_is_sum (JObj [(''version'', JInt 1), (''totalUses'', JInt 1),
      (''skills'', JObj [(''foo'', JObj [(''uses'', JInt 1), (''lastUsed'', JStr ''2026-01-01''),
                                        (''pinned'', JBool False)]),
                        (''bar'', JObj [(''uses'', JInt 0), (''lastUsed'', JNull),
                                        (''pinned'', JBool True)])]),
      (''lastUpdated'', JStr ''2026-01-02'')])"
proof -
  let ?d1 = "JObj [(''version'', JInt 1), (''totalUses'', JInt 1),
      (''skills'', JObj [(''foo'', JObj [(''uses'', JInt 1), (''lastUsed'', JStr ''2026-01-01''),
                                        (''pinned'', JBool False)])]),
      (''lastUpdated'', JStr ''2026-01-01'')]"
  let ?d2 = "JObj [(''version'', JInt 1), (''totalUses'', JInt 1),
      (''skills'', JObj [(''foo'', JObj [(''uses'', JInt 1), (''lastUsed'', JStr ''2026-01-01''),
                                        (''pinned'', JBool False)]),
                        (''bar'', JObj [(''uses'', JInt 0), (''lastUsed'', JNull),
                                        (''pinned'', JBool True)])]),
      (''lastUpdated'', JStr ''2026-01-01'')]"
  let ?d3 = "JObj [(''version'', JInt 1), (''totalUses'', JInt 1),
      (''skills'', JObj [(''foo'', JObj [(''uses'', JInt 1), (''lastUsed'', JStr ''2026-01-01''),
                                        (''pinned'', JBool False)]),
                        (''bar'', JObj [(''uses'', JInt 0), (''lastUsed'', JNull),
                                        (''pinned'', JBool True)])]),
      (''lastUpdated'', JStr ''2026-01-02'')]"
  have e1: "record_use ''foo'' ''2026-01-01'' default_stats = Inr (?d1, 0, 3)"
    by (simp add: record_use_def default_stats_def new_skill_def calculate_level_0
        calculate_level_1)
  have r1: "reachable ?d1"
    by (rule reachable.hook_use [OF reachable.initial e1])
  have e2: "pin_skill_doc ''bar'' ?d1 = Inr ?d2"
    by (simp add: pin_skill_doc_def new_skill_def)
  have e3: "set_last_updated ''2026-01-02'' ?d2 = Inr ?d3"
    by (simp add: set_last_updated_def)
  have r3: "reachable ?d3"
    by (rule reachable.cli_pin [OF r1 e2 e3])
  from r3 total_uses_invariant [OF r3] show ?thesis by (rule conjI)
qed





















end
